theory Spec2Isabelle
  imports Main "HOL-Library.Word"
begin

section \<open>The cache of internal/cache\<close>

subsection \<open>Time\<close>

text \<open>
  An instant (Go's \<^verbatim>\<open>time.Time\<close>) is a number of nanoseconds on the clock the
  process reads; a \<^verbatim>\<open>time.Duration\<close> is a signed 64-bit count of nanoseconds.
  \<^verbatim>\<open>time.Now()\<close> is an input of the model: every operation that reads the clock
  takes the instant it reads as its first argument.

  \<^verbatim>\<open>time.Since(t)\<close> is \<^verbatim>\<open>time.Now().Sub(t)\<close>, and \<^verbatim>\<open>Sub\<close> saturates: a
  difference that does not fit a Duration is returned as the largest (or smallest)
  Duration.
\<close>

type_synonym time = int
type_synonym duration = int
type_synonym bytes = "8 word list"

definition maxDuration :: duration where
  "maxDuration = 2 ^ 63 - 1"

definition minDuration :: duration where
  "minDuration = - (2 ^ 63)"

definition since :: "time \<Rightarrow> time \<Rightarrow> duration" where
  "since now t =
     (if maxDuration < now - t then maxDuration
      else if now - t < minDuration then minDuration
      else now - t)"

subsection \<open>Cache, entry, New, Add, Get\<close>

text \<open>
  \<^verbatim>\<open>type entry struct { createdAt time.Time; data []byte }\<close> and
  \<^verbatim>\<open>type Cache struct { entries map[string]entry; mu *sync.RWMutex; ttl time.Duration }\<close>.
  The Go map is a partial function from keys to entries. A byte slice is the list of its
  bytes, the nil slice being the empty list; the payload is taken by value (the caller does
  not write to the slice it handed over). The mutex \<^verbatim>\<open>mu\<close> has no field here: every
  operation below is one critical section, executed as a whole.
\<close>

record entry =
  createdAt :: time
  data :: bytes

record Cache =
  entries :: "string \<rightharpoonup> entry"
  ttl :: duration

text \<open>The struct literal of \<^verbatim>\<open>New\<close>; the goroutine it starts is \<open>reapLoop\<close> below.\<close>

definition New :: "duration \<Rightarrow> Cache" where
  "New d = \<lparr>entries = Map.empty, ttl = d\<rparr>"

text \<open>\<^verbatim>\<open>c.entries[key] = entry{createdAt: time.Now(), data: data}\<close>\<close>

definition Add :: "time \<Rightarrow> string \<Rightarrow> bytes \<Rightarrow> Cache \<Rightarrow> Cache" where
  "Add now key dat c =
     c\<lparr>entries := (entries c)(key \<mapsto> \<lparr>createdAt = now, data = dat\<rparr>)\<rparr>"

text \<open>
  \<^verbatim>\<open>e, ok := c.entries[key]; if !ok { return nil, false }; return e.data, true\<close>.
  The method has a pointer receiver, so the model returns the cache next to the result.
\<close>

definition Get :: "string \<Rightarrow> Cache \<Rightarrow> (bytes \<times> bool) \<times> Cache" where
  "Get key c =
     (case entries c key of
        None \<Rightarrow> (([], False), c)
      | Some e \<Rightarrow> ((data e, True), c))"

subsection \<open>reapLoop\<close>

text \<open>
  \<^verbatim>\<open>ticker := time.NewTicker(c.ttl)\<close>, then for every tick, under the write lock,
  \<^verbatim>\<open>for key, e := range c.entries { if time.Since(e.createdAt) > c.ttl { delete(c.entries, key) } }\<close>.

  \<^verbatim>\<open>time.NewTicker\<close> panics on a non-positive period, which ends the process: that is
  \<open>None\<close>. A ticker holds its period and the instant of its next tick.
\<close>

record Ticker =
  period :: duration
  nextTick :: time

definition NewTicker :: "time \<Rightarrow> duration \<Rightarrow> Ticker option" where
  "NewTicker now d =
     (if d \<le> 0 then None else Some \<lparr>period = d, nextTick = now + d\<rparr>)"

text \<open>
  The \<^verbatim>\<open>range\<close> loop over the map. Go fixes no iteration order, so the order is the
  argument \<open>ks\<close>, a list of the keys of the map; an entry deleted meanwhile is skipped,
  as the Go loop does. The sweep runs inside one critical section and is taken to read the
  clock at one instant \<open>now\<close>.
\<close>

fun reapLoop_range :: "duration \<Rightarrow> time \<Rightarrow> string list \<Rightarrow> (string \<rightharpoonup> entry) \<Rightarrow> (string \<rightharpoonup> entry)" where
  "reapLoop_range d now [] m = m"
| "reapLoop_range d now (key # ks) m =
     (case m key of
        None \<Rightarrow> reapLoop_range d now ks m
      | Some e \<Rightarrow>
          if d < since now (createdAt e)
          then reapLoop_range d now ks (m(key := None))
          else reapLoop_range d now ks m)"

text \<open>One iteration of \<^verbatim>\<open>for range ticker.C\<close>: one sweep.\<close>

definition reapLoop_sweep :: "time \<Rightarrow> string list \<Rightarrow> Cache \<Rightarrow> Cache" where
  "reapLoop_sweep now ks c = c\<lparr>entries := reapLoop_range (ttl c) now ks (entries c)\<rparr>"

subsection \<open>The cache and its reaper in time\<close>

text \<open>
  A world is a cache, the clock, and the ticker of the cache's reaper. \<open>NewAt now d\<close>
  is the call \<^verbatim>\<open>New(d)\<close> made at the instant \<open>now\<close>: the empty cache, and the goroutine
  \<^verbatim>\<open>reapLoop\<close>, which creates its ticker from \<^verbatim>\<open>c.ttl\<close> (taken to happen at the same
  instant).
\<close>

record world =
  store :: Cache
  clock :: time
  ticker :: Ticker

definition NewAt :: "time \<Rightarrow> duration \<Rightarrow> world option" where
  "NewAt now d =
     (case NewTicker now (ttl (New d)) of
        None \<Rightarrow> None
      | Some tk \<Rightarrow> Some \<lparr>store = New d, clock = now, ticker = tk\<rparr>)"

text \<open>
  What can happen next. Time passes, but not beyond the next tick; at the instant of the
  tick the reaper sweeps (in some order \<open>ks\<close> of the keys) and the ticker moves on by its
  period; a caller calls \<open>Add\<close> or \<open>Get\<close> at the present instant. \<open>None\<close>: the event
  cannot happen in this world. This is the idealised reaper: ticks are neither late nor
  dropped, and a sweep takes no time.
\<close>

datatype event =
  Wait time
| Tick "string list"
| CallAdd string bytes
| CallGet string

fun step :: "world \<Rightarrow> event \<Rightarrow> world option" where
  "step w (Wait t) =
     (if clock w \<le> t \<and> t \<le> nextTick (ticker w) then Some (w\<lparr>clock := t\<rparr>) else None)"
| "step w (Tick ks) =
     (if clock w = nextTick (ticker w) \<and> distinct ks \<and> set ks = dom (entries (store w))
      then Some (w\<lparr>store := reapLoop_sweep (clock w) ks (store w),
                   ticker := (ticker w)\<lparr>nextTick := nextTick (ticker w) + period (ticker w)\<rparr>\<rparr>)
      else None)"
| "step w (CallAdd key dat) = Some (w\<lparr>store := Add (clock w) key dat (store w)\<rparr>)"
| "step w (CallGet key) = Some (w\<lparr>store := snd (Get key (store w))\<rparr>)"

fun run :: "world \<Rightarrow> event list \<Rightarrow> world option" where
  "run w [] = Some w"
| "run w (e # es) = (case step w e of None \<Rightarrow> None | Some w' \<Rightarrow> run w' es)"

fun addsKey :: "string \<Rightarrow> event \<Rightarrow> bool" where
  "addsKey k (CallAdd key dat) = (key = k)"
| "addsKey k _ = False"

text \<open>
  Two invariants of a world. \<open>ticking\<close>: the ticker runs with the cache's \<open>ttl\<close> as its
  period, and its next tick is due no earlier than now and no later than one period from
  now. \<open>cached_since k t0 v\<close>: the entry stored under \<open>k\<close> at the instant \<open>t0\<close> with the
  payload \<open>v\<close> is there while no more than \<open>ttl\<close> has passed, and later it is either gone or
  waiting for a tick that is due at \<open>t0 + 2 * ttl\<close> or before.
\<close>

definition ticking :: "world \<Rightarrow> bool" where
  "ticking w =
     (period (ticker w) = ttl (store w) \<and> 0 < period (ticker w)
      \<and> clock w \<le> nextTick (ticker w)
      \<and> nextTick (ticker w) \<le> clock w + period (ticker w))"

definition cached_since :: "string \<Rightarrow> time \<Rightarrow> bytes \<Rightarrow> world \<Rightarrow> bool" where
  "cached_since k t0 v w =
     (t0 \<le> clock w \<and>
      (if clock w \<le> t0 + ttl (store w)
       then entries (store w) k = Some \<lparr>createdAt = t0, data = v\<rparr>
       else entries (store w) k = None
            \<or> (entries (store w) k = Some \<lparr>createdAt = t0, data = v\<rparr>
                \<and> nextTick (ticker w) \<le> t0 + 2 * ttl (store w))))"

section \<open>The fetch layer of internal/pokeapi\<close>

text \<open>
  The network is an input: \<open>net url\<close> is what \<^verbatim>\<open>http.Get(url)\<close> returns, \<open>None\<close> for
  its error, otherwise the status code and what \<^verbatim>\<open>io.ReadAll(resp.Body)\<close> gives
  (\<open>None\<close> for a read error). What a call does to the outside is returned as a list of
  effects, in order.
\<close>

datatype response = Response (StatusCode: int) (Body: "bytes option")

type_synonym http = "string \<Rightarrow> response option"

datatype effect = HttpGet string | Println string

datatype error =
  FetchFailed
| BadStatus int
| ReadFailed
| ParseFailed
| NoPokemonName

record Client =
  cache :: Cache
  baseURL :: string

definition StatusOK :: int where
  "StatusOK = 200"

definition fetchWithCache :: "http \<Rightarrow> time \<Rightarrow> Client \<Rightarrow> string \<Rightarrow> (error + bytes) \<times> Client \<times> effect list" where
  "fetchWithCache net now c url =
     (let ((dat, ok), ch) = Get url (cache c); c0 = c\<lparr>cache := ch\<rparr> in
      if ok then (Inr dat, c0, [Println ''(using cached data)''])
      else
        (case net url of
           None \<Rightarrow> (Inl FetchFailed, c0, [HttpGet url])
         | Some resp \<Rightarrow>
             if StatusCode resp \<noteq> StatusOK
             then (Inl (BadStatus (StatusCode resp)), c0, [HttpGet url])
             else
               (case Body resp of
                  None \<Rightarrow> (Inl ReadFailed, c0, [HttpGet url])
                | Some body \<Rightarrow>
                    (Inr body, c0\<lparr>cache := Add now url body ch\<rparr>, [HttpGet url]))))"

text \<open>
  \<^verbatim>\<open>Pokemon\<close>: the scalar fields of the struct (its nested lists are not read by the
  code modelled here). \<^verbatim>\<open>json.Unmarshal\<close> is the input \<open>decode\<close>.
\<close>

record Pokemon =
  ID :: int
  Name :: string
  BaseExperience :: int
  Height :: int
  Weight :: int
  IsDefault :: bool
  Order :: int

definition GetPokemon :: "http \<Rightarrow> (bytes \<Rightarrow> Pokemon option) \<Rightarrow> time \<Rightarrow> Client \<Rightarrow> string \<Rightarrow> (error + Pokemon) \<times> Client \<times> effect list" where
  "GetPokemon net decode now c name =
     (let url = baseURL c @ ''/pokemon/'' @ name @ ''/'';
          (r, c', effs) = fetchWithCache net now c url in
      case r of
        Inl err \<Rightarrow> (Inl err, c', effs)
      | Inr dat \<Rightarrow>
          (case decode dat of
             None \<Rightarrow> (Inl ParseFailed, c', effs)
           | Some response \<Rightarrow> (Inr response, c', effs)))"

section \<open>commandCatch of cmd/pokedex\<close>

text \<open>
  \<^verbatim>\<open>roll := rand.Intn(maxBaseExp)\<close> is the input \<open>roll\<close>; \<^verbatim>\<open>rand.Intn(n)\<close> returns a
  number in the half-open interval from 0 to \<open>n\<close>. The command returns its error
  (\<open>None\<close> for \<^verbatim>\<open>nil\<close>) or panics, and leaves a configuration and its effects.

  The field \<^verbatim>\<open>pokedex\<close> is a Go map, \<open>None\<close> when it is nil: \<^verbatim>\<open>main\<close> makes the map,
  the configuration built in the package's test leaves it nil. Storing into a nil map
  panics, after the two lines of the catch are printed.
\<close>

record config =
  client :: Client
  nextURL :: "string option"
  prevURL :: "string option"
  pokedex :: "(string \<rightharpoonup> Pokemon) option"

datatype outcome = Returned "error option" | Panicked

definition maxBaseExp :: int where
  "maxBaseExp = 400"

definition commandCatch :: "http \<Rightarrow> (bytes \<Rightarrow> Pokemon option) \<Rightarrow> time \<Rightarrow> int \<Rightarrow> config \<Rightarrow> string list \<Rightarrow> outcome \<times> config \<times> effect list" where
  "commandCatch net decode now roll cfg args =
     (case args of
        [] \<Rightarrow> (Returned (Some NoPokemonName), cfg, [])
      | pokemonName # _ \<Rightarrow>
          (let throw = [Println (''Throwing a Pokeball at '' @ pokemonName @ ''...'')];
               (r, c', effs) = GetPokemon net decode now (client cfg) pokemonName;
               cfg' = cfg\<lparr>client := c'\<rparr> in
           case r of
             Inl err \<Rightarrow> (Returned (Some err), cfg', throw @ effs)
           | Inr pokemon \<Rightarrow>
               (let catchThreshold = min (BaseExperience pokemon) maxBaseExp;
                    caught = [Println (pokemonName @ '' was caught!''),
                              Println ''You may now inspect it with the inspect command.''] in
                if catchThreshold \<le> roll
                then (case pokedex cfg' of
                        None \<Rightarrow> (Panicked, cfg', throw @ effs @ caught)
                      | Some dex \<Rightarrow>
                          (Returned None,
                           cfg'\<lparr>pokedex := Some (dex(pokemonName \<mapsto> pokemon))\<rparr>,
                           throw @ effs @ caught))
                else (Returned None, cfg',
                      throw @ effs @ [Println (pokemonName @ '' escaped!'')]))))"

section \<open>Auxiliary facts\<close>

subsection \<open>The sweep, entry by entry\<close>

lemma since_exact:
  "minDuration \<le> d \<Longrightarrow> d < maxDuration \<Longrightarrow> (d < since now t) = (d < now - t)"
  by (auto simp: since_def)

lemma since_fresh: "t0 \<le> now \<Longrightarrow> now \<le> t0 + d \<Longrightarrow> \<not> d < since now t0"
  by (auto simp: since_def minDuration_def)

lemma since_stale: "d < maxDuration \<Longrightarrow> t0 + d < now \<Longrightarrow> 0 < d \<Longrightarrow> d < since now t0"
  by (auto simp: since_def minDuration_def)

lemma reapLoop_range_lookup:
  "reapLoop_range d now ks m k =
     (if k \<in> set ks
      then (case m k of None \<Rightarrow> None
            | Some e \<Rightarrow> if d < since now (createdAt e) then None else Some e)
      else m k)"
  by (induction ks arbitrary: m) (auto split: option.splits)

lemma reapLoop_sweep_lookup:
  assumes "set ks = dom (entries c)"
  shows "entries (reapLoop_sweep now ks c) k =
     (case entries c k of None \<Rightarrow> None
      | Some e \<Rightarrow> if ttl c < since now (createdAt e) then None else Some e)"
  using assms by (auto simp: reapLoop_sweep_def reapLoop_range_lookup domIff split: option.splits)

lemma reapLoop_sweep_ttl: "ttl (reapLoop_sweep now ks c) = ttl c"
  by (simp add: reapLoop_sweep_def)

subsection \<open>Invariants of a run\<close>

lemma NewAt_Some:
  assumes "NewAt s d = Some w0"
  shows "0 < d \<and> w0 = \<lparr>store = New d, clock = s, ticker = \<lparr>period = d, nextTick = s + d\<rparr>\<rparr>"
  using assms by (auto simp: NewAt_def NewTicker_def New_def split: if_splits)

lemma NewAt_ticking: "NewAt s d = Some w0 \<Longrightarrow> ticking w0 \<and> ttl (store w0) = d"
  by (auto dest!: NewAt_Some simp: ticking_def New_def)

lemma step_ticking:
  assumes "step w e = Some w'" and "ticking w"
  shows "ticking w' \<and> ttl (store w') = ttl (store w) \<and> clock w \<le> clock w'"
  using assms
  by (cases e) (auto simp: ticking_def reapLoop_sweep_ttl Add_def Get_def split: if_splits option.splits)

lemma run_ticking:
  "run w evs = Some w' \<Longrightarrow> ticking w \<Longrightarrow>
   ticking w' \<and> ttl (store w') = ttl (store w) \<and> clock w \<le> clock w'"
proof (induction evs arbitrary: w)
  case Nil
  then show ?case by simp
next
  case (Cons e evs)
  from Cons.prems(1) obtain w1 where s: "step w e = Some w1" and r: "run w1 evs = Some w'"
    by (auto split: option.splits)
  from step_ticking [OF s Cons.prems(2)] Cons.IH [OF r] show ?case by auto
qed

lemma step_cached_since:
  assumes st: "step w e = Some w'" and na: "\<not> addsKey k e" and tk: "ticking w"
    and d: "ttl (store w) < maxDuration" and cs: "cached_since k t0 v w"
  shows "cached_since k t0 v w'"
proof (cases e)
  case (Wait t)
  with st tk cs show ?thesis
    by (auto simp: cached_since_def ticking_def split: if_splits)
next
  case (Tick ks)
  with st have ks: "set ks = dom (entries (store w))" and now: "clock w = nextTick (ticker w)"
    and w': "w' = w\<lparr>store := reapLoop_sweep (clock w) ks (store w),
                   ticker := (ticker w)\<lparr>nextTick := nextTick (ticker w) + period (ticker w)\<rparr>\<rparr>"
    by (auto split: if_splits)
  show ?thesis
  proof (cases "clock w \<le> t0 + ttl (store w)")
    case True
    with cs have "entries (store w) k = Some \<lparr>createdAt = t0, data = v\<rparr>" and "t0 \<le> clock w"
      by (auto simp: cached_since_def)
    with True since_fresh [of t0 "clock w" "ttl (store w)"] show ?thesis
      by (simp add: w' cached_since_def reapLoop_sweep_lookup [OF ks] reapLoop_sweep_ttl)
  next
    case False
    with tk d since_stale [of "ttl (store w)" t0 "clock w"] have "ttl (store w) < since (clock w) t0"
      by (simp add: ticking_def)
    with False cs show ?thesis
      by (auto simp: w' cached_since_def reapLoop_sweep_lookup [OF ks] reapLoop_sweep_ttl)
  qed
next
  case (CallAdd key dat)
  with st na cs show ?thesis
    by (auto simp: cached_since_def Add_def)
next
  case (CallGet key)
  with st cs show ?thesis
    by (auto simp: cached_since_def Get_def split: option.splits)
qed

lemma run_cached_since:
  "run w evs = Some w' \<Longrightarrow> \<forall>e\<in>set evs. \<not> addsKey k e \<Longrightarrow> ticking w \<Longrightarrow>
   ttl (store w) < maxDuration \<Longrightarrow> cached_since k t0 v w \<Longrightarrow> cached_since k t0 v w'"
proof (induction evs arbitrary: w)
  case Nil
  then show ?case by simp
next
  case (Cons e evs)
  from Cons.prems(1) obtain w1 where s: "step w e = Some w1" and r: "run w1 evs = Some w'"
    by (auto split: option.splits)
  from step_ticking [OF s Cons.prems(3)] have t1: "ticking w1" and d1: "ttl (store w1) = ttl (store w)"
    by auto
  from Cons.prems(2) have "\<not> addsKey k e" by simp
  from step_cached_since [OF s this Cons.prems(3) Cons.prems(4) Cons.prems(5)]
  have "cached_since k t0 v w1" .
  with Cons.IH [OF r _ t1] Cons.prems(2,4) d1 show ?case by simp
qed

lemma step_never_added:
  assumes "step w e = Some w'" and "\<not> addsKey k e" and "entries (store w) k = None"
  shows "entries (store w') k = None"
  using assms
  by (cases e)
     (auto simp: reapLoop_sweep_def reapLoop_range_lookup Add_def Get_def split: if_splits option.splits)

lemma run_never_added:
  "run w evs = Some w' \<Longrightarrow> \<forall>e\<in>set evs. \<not> addsKey k e \<Longrightarrow> entries (store w) k = None \<Longrightarrow>
   entries (store w') k = None"
proof (induction evs arbitrary: w)
  case Nil
  then show ?case by simp
next
  case (Cons e evs)
  from Cons.prems(1) obtain w1 where s: "step w e = Some w1" and r: "run w1 evs = Some w'"
    by (auto split: option.splits)
  from Cons.prems(2) have "\<not> addsKey k e" by simp
  from step_never_added [OF s this Cons.prems(3)] have "entries (store w1) k = None" .
  with Cons.IH [OF r] Cons.prems(2) show ?case by simp
qed

subsection \<open>What commandCatch prints\<close>

lemma fetchWithCache_effects:
  "fetchWithCache net now c url = (r, c', effs) \<Longrightarrow>
   effs = [Println ''(using cached data)''] \<or> effs = [HttpGet url]"
  by (cases "entries (cache c) url"; cases "net url")
     (auto simp: fetchWithCache_def Get_def split: option.splits if_splits)

lemma GetPokemon_effects:
  assumes "GetPokemon net decode now c name = (r, c', effs)"
  shows "effs = [Println ''(using cached data)''] \<or> effs = [HttpGet (baseURL c @ ''/pokemon/'' @ name @ ''/'')]"
proof -
  obtain r0 c0 e0 where f: "fetchWithCache net now c (baseURL c @ ''/pokemon/'' @ name @ ''/'') = (r0, c0, e0)"
    by (cases "fetchWithCache net now c (baseURL c @ ''/pokemon/'' @ name @ ''/'')") auto
  with assms have "effs = e0"
    by (auto simp: GetPokemon_def split: sum.splits option.splits)
  with fetchWithCache_effects [OF f] show ?thesis by simp
qed

lemma caught_line_not_cached: "name @ '' was caught!'' \<noteq> ''(using cached data)''"
proof
  assume "name @ '' was caught!'' = ''(using cached data)''"
  then have "last (name @ '' was caught!'') = last ''(using cached data)''"
    by (rule arg_cong)
  then show False by simp
qed

lemma caught_line_not_throw: "name @ '' was caught!'' \<noteq> ''Throwing a Pokeball at '' @ name @ ''...''"
proof
  assume "name @ '' was caught!'' = ''Throwing a Pokeball at '' @ name @ ''...''"
  then have "last (name @ '' was caught!'') = last (''Throwing a Pokeball at '' @ name @ ''...'')"
    by (rule arg_cong)
  then show False by simp
qed

section \<open>Properties\<close>

text \<open>
  C1 (round trip). For every key, payload, clock reading and cache, a \<open>Get\<close> of the key
  right after \<open>Add\<close> stored a payload under it returns that payload and \<open>True\<close>.
\<close>

theorem Get_after_Add:
  "fst (Get k (Add now k v c)) = (v, True)"
  by (simp add: Get_def Add_def)

text \<open>
  C2 (overwrite). \<open>Add k v1\<close> at \<open>t1\<close> followed by \<open>Add k v2\<close> at \<open>t2\<close> leaves the cache
  exactly as \<open>Add k v2\<close> at \<open>t2\<close> alone does: \<open>Get k\<close> returns \<open>v2\<close> and \<open>True\<close>, the
  entry's \<open>createdAt\<close> is \<open>t2\<close>, and the map holds one entry for \<open>k\<close>.
\<close>

theorem Add_overwrite:
  "Add t2 k v2 (Add t1 k v1 c) = Add t2 k v2 c
   \<and> fst (Get k (Add t2 k v2 (Add t1 k v1 c))) = (v2, True)
   \<and> entries (Add t2 k v2 (Add t1 k v1 c)) k = Some \<lparr>createdAt = t2, data = v2\<rparr>
   \<and> (\<exists>!e. entries (Add t2 k v2 (Add t1 k v1 c)) k = Some e)"
  by (simp add: Add_def Get_def)

text \<open>
  C3 (miss). \<open>Get\<close> returns the nil payload and \<open>False\<close>: on the cache \<open>New\<close> builds,
  for every key; on any cache whose map has no entry for the key; after any run from
  \<open>New\<close> in which the key was never added; and after a sweep that found the key's entry
  older than \<open>ttl\<close>. The result of \<open>Get\<close> is a payload and a boolean: its type has no
  error.
\<close>

theorem Get_miss:
  "fst (Get k (New d)) = ([], False)
   \<and> (entries c k = None \<longrightarrow> fst (Get k c) = ([], False))
   \<and> (NewAt s d = Some w0 \<and> run w0 evs = Some w \<and> (\<forall>e\<in>set evs. \<not> addsKey k e)
        \<longrightarrow> fst (Get k (store w)) = ([], False))
   \<and> (set ks = dom (entries c) \<and> entries c k = Some e \<and> ttl c < since now (createdAt e)
        \<longrightarrow> fst (Get k (reapLoop_sweep now ks c)) = ([], False))"
proof -
  have fresh: "fst (Get k (New d)) = ([], False)"
    by (simp add: Get_def New_def)
  have absent: "entries c k = None \<longrightarrow> fst (Get k c) = ([], False)"
    by (simp add: Get_def)
  have never: "fst (Get k (store w)) = ([], False)"
    if "NewAt s d = Some w0" and r: "run w0 evs = Some w" and na: "\<forall>e\<in>set evs. \<not> addsKey k e"
  proof -
    from that(1) have "entries (store w0) k = None"
      by (auto dest!: NewAt_Some simp: New_def)
    from run_never_added [OF r na this] show ?thesis
      by (simp add: Get_def)
  qed
  have reaped: "fst (Get k (reapLoop_sweep now ks c)) = ([], False)"
    if "set ks = dom (entries c)" and "entries c k = Some e" and "ttl c < since now (createdAt e)"
    using that by (simp add: Get_def reapLoop_sweep_lookup)
  from fresh absent never reaped show ?thesis
    by blast
qed

theorem Get_miss_witness:
  "NewAt 0 100 = Some \<lparr>store = New 100, clock = 0, ticker = \<lparr>period = 100, nextTick = 100\<rparr>\<rparr>
   \<and> run \<lparr>store = New 100, clock = 0, ticker = \<lparr>period = 100, nextTick = 100\<rparr>\<rparr>
        [CallAdd ''b'' [7], Wait 5, CallGet ''a'']
      = Some \<lparr>store = Add 0 ''b'' [7] (New 100), clock = 5, ticker = \<lparr>period = 100, nextTick = 100\<rparr>\<rparr>
   \<and> list_all (\<lambda>e. \<not> addsKey ''a'' e) [CallAdd ''b'' [7], Wait 5, CallGet ''a'']
   \<and> fst (Get ''a'' (Add 0 ''b'' [7] (New 100))) = ([], False)
   \<and> set [''b''] = dom (entries (Add 0 ''b'' [7] (New 100)))
   \<and> entries (Add 0 ''b'' [7] (New 100)) ''b'' = Some \<lparr>createdAt = 0, data = [7]\<rparr>
   \<and> ttl (Add 0 ''b'' [7] (New 100)) < since 101 (createdAt \<lparr>createdAt = 0, data = [7]\<rparr>)
   \<and> fst (Get ''b'' (reapLoop_sweep 101 [''b''] (Add 0 ''b'' [7] (New 100)))) = ([], False)"
proof -
  let ?init = "\<lparr>store = New 100, clock = 0, ticker = \<lparr>period = 100, nextTick = 100\<rparr>\<rparr>"
  let ?c = "Add 0 ''b'' [7] (New 100)"
  let ?w = "\<lparr>store = ?c, clock = 5, ticker = \<lparr>period = 100, nextTick = 100\<rparr>\<rparr>"
  let ?evs = "[CallAdd ''b'' [7], Wait 5, CallGet ''a'']"
  have new: "NewAt 0 100 = Some ?init"
    by (simp add: NewAt_def NewTicker_def New_def)
  have r: "run ?init ?evs = Some ?w"
    by (simp add: Add_def New_def Get_def)
  have na: "\<forall>e\<in>set ?evs. \<not> addsKey ''a'' e"
    by simp
  have ks: "set [''b''] = dom (entries ?c)"
    by (simp add: Add_def New_def)
  have e: "entries ?c ''b'' = Some \<lparr>createdAt = 0, data = [7]\<rparr>"
    by (simp add: Add_def New_def)
  have old: "ttl ?c < since 101 (createdAt \<lparr>createdAt = 0, data = [7]\<rparr>)"
    by (simp add: Add_def New_def since_def maxDuration_def minDuration_def)
  from Get_miss [of "''a''" 100 ?c 0 ?init ?evs ?w "[''b'']" "\<lparr>createdAt = 0, data = [7]\<rparr>" 101]
    new r na
  have a: "fst (Get ''a'' (store ?w)) = ([], False)"
    by simp
  from Get_miss [of "''b''" 100 ?c 0 ?init ?evs ?w "[''b'']" "\<lparr>createdAt = 0, data = [7]\<rparr>" 101]
    ks e old
  have b: "fst (Get ''b'' (reapLoop_sweep 101 [''b''] ?c)) = ([], False)"
    by simp
  have na': "list_all (\<lambda>e. \<not> addsKey ''a'' e) ?evs"
    by simp
  from a have a': "fst (Get ''a'' ?c) = ([], False)"
    by simp
  from new r na' a' ks e old b show ?thesis
    by (intro conjI)
qed

text \<open>
  C4 (no age check on read). If the map holds an entry for the key, \<open>Get\<close> returns its
  payload and \<open>True\<close>; no clock reading and no \<open>ttl\<close> enters the result, which is the same
  on every cache whose map has the same entry for the key. The instance that follows reads an entry
  whose age, 500, is beyond the \<open>ttl\<close>, 100.
\<close>

theorem Get_ignores_age:
  assumes "entries c k = Some e"
  shows "fst (Get k c) = (data e, True)
       \<and> (\<forall>c'. entries c' k = entries c k \<longrightarrow> fst (Get k c') = fst (Get k c))"
  using assms by (simp add: Get_def)

theorem Get_ignores_age_witness:
  "entries \<lparr>entries = [''a'' \<mapsto> \<lparr>createdAt = 0, data = [1, 2, 3]\<rparr>], ttl = 100\<rparr> ''a''
     = Some \<lparr>createdAt = 0, data = [1, 2, 3]\<rparr>
   \<and> (100 :: int) < since 500 0
   \<and> fst (Get ''a'' \<lparr>entries = [''a'' \<mapsto> \<lparr>createdAt = 0, data = [1, 2, 3]\<rparr>], ttl = 100\<rparr>)
       = ([1, 2, 3], True)
   \<and> fst (Get ''a'' \<lparr>entries = [''a'' \<mapsto> \<lparr>createdAt = 0, data = [1, 2, 3]\<rparr>], ttl = 7\<rparr>)
       = ([1, 2, 3], True)"
proof -
  let ?c = "\<lparr>entries = [''a'' \<mapsto> \<lparr>createdAt = 0, data = [1, 2, 3 :: 8 word]\<rparr>], ttl = 100\<rparr>"
  let ?c' = "\<lparr>entries = [''a'' \<mapsto> \<lparr>createdAt = 0, data = [1, 2, 3 :: 8 word]\<rparr>], ttl = 7\<rparr>"
  have e: "entries ?c ''a'' = Some \<lparr>createdAt = 0, data = [1, 2, 3]\<rparr>"
    by simp
  have s: "(100 :: int) < since 500 0"
    by (simp add: since_def maxDuration_def minDuration_def)
  from Get_ignores_age [OF e] have g: "fst (Get ''a'' ?c) = ([1, 2, 3], True)"
    and g': "entries ?c' ''a'' = entries ?c ''a'' \<longrightarrow> fst (Get ''a'' ?c') = fst (Get ''a'' ?c)"
    by simp_all
  from e s g g' show ?thesis
    by simp
qed

text \<open>
  C5 (sweep). A sweep at the instant \<open>now\<close>, visiting the keys of the map in any order,
  deletes exactly the entries whose age \<open>since now createdAt\<close> is greater than \<open>ttl\<close> and
  leaves every other entry, and \<open>ttl\<close>, as they were; for a \<open>ttl\<close> below the largest
  Duration that age test is \<open>ttl < now - createdAt\<close>. In every world reached from \<open>New\<close>
  the ticker's period is the cache's \<open>ttl\<close>: the first tick is due \<open>ttl\<close> after \<open>New\<close>, a
  tick happens at the instant it is due, sweeps the cache at that instant and sets the
  next one \<open>ttl\<close> later, and the clock never passes a tick that is due.
\<close>

theorem reapLoop_sweep_exact:
  assumes ks: "set ks = dom (entries c)"
    and new: "NewAt s d = Some w0"
    and r: "run w0 evs = Some w"
  shows "(\<forall>key. entries (reapLoop_sweep now ks c) key =
            (case entries c key of
               None \<Rightarrow> None
             | Some e \<Rightarrow> if ttl c < since now (createdAt e) then None else Some e))
       \<and> ttl (reapLoop_sweep now ks c) = ttl c
       \<and> (minDuration \<le> ttl c \<and> ttl c < maxDuration
            \<longrightarrow> (\<forall>t. (ttl c < since now t) = (ttl c < now - t)))
       \<and> nextTick (ticker w0) = s + d
       \<and> period (ticker w) = ttl (store w) \<and> ttl (store w) = d
       \<and> clock w \<le> nextTick (ticker w) \<and> nextTick (ticker w) \<le> clock w + d
       \<and> (\<forall>ks' w'. step w (Tick ks') = Some w'
            \<longrightarrow> clock w = nextTick (ticker w)
                \<and> store w' = reapLoop_sweep (nextTick (ticker w)) ks' (store w)
                \<and> nextTick (ticker w') = nextTick (ticker w) + ttl (store w))"
proof -
  have sweep: "\<forall>key. entries (reapLoop_sweep now ks c) key =
            (case entries c key of
               None \<Rightarrow> None
             | Some e \<Rightarrow> if ttl c < since now (createdAt e) then None else Some e)"
    by (simp add: reapLoop_sweep_lookup [OF ks])
  have raw: "minDuration \<le> ttl c \<and> ttl c < maxDuration
            \<longrightarrow> (\<forall>t. (ttl c < since now t) = (ttl c < now - t))"
    by (simp add: since_exact)
  from NewAt_Some [OF new] have first: "nextTick (ticker w0) = s + d"
    by simp
  from NewAt_ticking [OF new] run_ticking [OF r]
  have tk: "ticking w" and dw: "ttl (store w) = d"
    by auto
  have tick: "\<forall>ks' w'. step w (Tick ks') = Some w'
            \<longrightarrow> clock w = nextTick (ticker w)
                \<and> store w' = reapLoop_sweep (nextTick (ticker w)) ks' (store w)
                \<and> nextTick (ticker w') = nextTick (ticker w) + ttl (store w)"
    using tk by (auto simp: ticking_def split: if_splits)
  from tk dw have inv: "period (ticker w) = ttl (store w)" "clock w \<le> nextTick (ticker w)"
    "nextTick (ticker w) \<le> clock w + d"
    by (simp_all add: ticking_def)
  have keep: "ttl (reapLoop_sweep now ks c) = ttl c"
    by (rule reapLoop_sweep_ttl)
  from sweep keep raw first inv(1) dw inv(2) inv(3) tick show ?thesis
    by (intro conjI)
qed

theorem reapLoop_sweep_exact_witness:
  "set [''new'', ''old'', ''edge'']
     = dom (entries (Add 100 ''edge'' [3] (Add 150 ''new'' [2] (Add 0 ''old'' [1] (New 100)))))
   \<and> NewAt 0 100 = Some \<lparr>store = New 100, clock = 0, ticker = \<lparr>period = 100, nextTick = 100\<rparr>\<rparr>
   \<and> run \<lparr>store = New 100, clock = 0, ticker = \<lparr>period = 100, nextTick = 100\<rparr>\<rparr>
         [CallAdd ''old'' [1], Wait 100, Tick [''old'']]
       = Some \<lparr>store = Add 0 ''old'' [1] (New 100), clock = 100,
               ticker = \<lparr>period = 100, nextTick = 200\<rparr>\<rparr>
   \<and> entries (reapLoop_sweep 200 [''new'', ''old'', ''edge'']
        (Add 100 ''edge'' [3] (Add 150 ''new'' [2] (Add 0 ''old'' [1] (New 100))))) ''old'' = None
   \<and> entries (reapLoop_sweep 200 [''new'', ''old'', ''edge'']
        (Add 100 ''edge'' [3] (Add 150 ''new'' [2] (Add 0 ''old'' [1] (New 100))))) ''new''
       = Some \<lparr>createdAt = 150, data = [2]\<rparr>
   \<and> entries (reapLoop_sweep 200 [''new'', ''old'', ''edge'']
        (Add 100 ''edge'' [3] (Add 150 ''new'' [2] (Add 0 ''old'' [1] (New 100))))) ''edge''
       = Some \<lparr>createdAt = 100, data = [3]\<rparr>"
proof -
  let ?c = "Add 100 ''edge'' [3] (Add 150 ''new'' [2] (Add 0 ''old'' [1] (New 100)))"
  let ?init = "\<lparr>store = New 100, clock = 0, ticker = \<lparr>period = 100, nextTick = 100\<rparr>\<rparr>"
  let ?evs = "[CallAdd ''old'' [1], Wait 100, Tick [''old'']]"
  let ?end = "\<lparr>store = Add 0 ''old'' [1] (New 100), clock = 100,
               ticker = \<lparr>period = 100, nextTick = 200\<rparr>\<rparr>"
  have ks: "set [''new'', ''old'', ''edge''] = dom (entries ?c)"
    by (auto simp: Add_def New_def)
  have new: "NewAt 0 100 = Some ?init"
    by (simp add: NewAt_def NewTicker_def New_def)
  have r: "run ?init ?evs = Some ?end"
    by (simp add: Add_def New_def reapLoop_sweep_def since_def maxDuration_def minDuration_def)
  from reapLoop_sweep_exact [OF ks new r, of 200]
  have all: "\<forall>key. entries (reapLoop_sweep 200 [''new'', ''old'', ''edge''] ?c) key =
            (case entries ?c key of
               None \<Rightarrow> None
             | Some e \<Rightarrow> if ttl ?c < since 200 (createdAt e) then None else Some e)"
    by (rule conjunct1)
  have c: "entries ?c ''old'' = Some \<lparr>createdAt = 0, data = [1]\<rparr>"
    "entries ?c ''new'' = Some \<lparr>createdAt = 150, data = [2]\<rparr>"
    "entries ?c ''edge'' = Some \<lparr>createdAt = 100, data = [3]\<rparr>"
    "ttl ?c = 100"
    by (simp_all add: Add_def New_def)
  have s: "since 200 0 = 200" "since 200 150 = 50" "since 200 100 = 100"
    by (simp_all add: since_def maxDuration_def minDuration_def)
  have "entries (reapLoop_sweep 200 [''new'', ''old'', ''edge''] ?c) ''old'' = None"
    and "entries (reapLoop_sweep 200 [''new'', ''old'', ''edge''] ?c) ''new''
           = Some \<lparr>createdAt = 150, data = [2]\<rparr>"
    and "entries (reapLoop_sweep 200 [''new'', ''old'', ''edge''] ?c) ''edge''
           = Some \<lparr>createdAt = 100, data = [3]\<rparr>"
    by (simp_all only: all [rule_format] c s option.case entry.simps if_True if_False)
       simp_all
  with ks new r show ?thesis
    by simp
qed

text \<open>
  C6 (bounded staleness). Let the cache be built by \<open>New\<close> with a \<open>ttl\<close> \<open>d\<close> that is
  positive and below the largest Duration, let \<open>k\<close> be added with payload \<open>v\<close> at the
  instant \<open>t0\<close> (the clock of \<open>w1\<close>), and let any events follow that do not add \<open>k\<close>
  again. Then \<open>Get k\<close> returns \<open>v\<close> and \<open>True\<close> at every instant up to \<open>t0 + d\<close>, and the
  nil payload and \<open>False\<close> at every instant later than \<open>t0 + 2 * d\<close>.
\<close>

theorem bounded_staleness:
  assumes new: "NewAt s d = Some w0"
    and d: "d < maxDuration"
    and before: "run w0 evs0 = Some w1"
    and after: "run w1 (CallAdd k v # evs) = Some w"
    and noadd: "\<forall>e\<in>set evs. \<not> addsKey k e"
  shows "(clock w \<le> clock w1 + d \<longrightarrow> fst (Get k (store w)) = (v, True))
       \<and> (clock w1 + 2 * d < clock w \<longrightarrow> fst (Get k (store w)) = ([], False))"
proof -
  from NewAt_ticking [OF new] have "ticking w0" and "ttl (store w0) = d" by auto
  with run_ticking [OF before] have t1: "ticking w1" and d1: "ttl (store w1) = d" by auto
  define w2 where "w2 = w1\<lparr>store := Add (clock w1) k v (store w1)\<rparr>"
  from after have r: "run w2 evs = Some w" by (simp add: w2_def)
  from t1 d1 have t2: "ticking w2" and d2: "ttl (store w2) = d"
    by (auto simp: w2_def ticking_def Add_def)
  from t2 d2 have c2: "cached_since k (clock w1) v w2"
    by (auto simp: w2_def cached_since_def Add_def ticking_def)
  from run_ticking [OF r t2] d2 have t: "ticking w" and dw: "ttl (store w) = d" by auto
  from run_cached_since [OF r noadd t2 _ c2] d d2 have "cached_since k (clock w1) v w" by simp
  with t dw show ?thesis
    by (auto simp: cached_since_def ticking_def Get_def split: if_splits)
qed

theorem bounded_staleness_witness:
  "NewAt 0 100 = Some \<lparr>store = New 100, clock = 0, ticker = \<lparr>period = 100, nextTick = 100\<rparr>\<rparr>
   \<and> (100 :: int) < maxDuration
   \<and> (\<exists>w. run \<lparr>store = New 100, clock = 0, ticker = \<lparr>period = 100, nextTick = 100\<rparr>\<rparr>
             [CallAdd ''a'' [1, 2, 3], Wait 10] = Some w
          \<and> clock w = 10 \<and> fst (Get ''a'' (store w)) = ([1, 2, 3], True))
   \<and> (\<exists>w. run \<lparr>store = New 100, clock = 0, ticker = \<lparr>period = 100, nextTick = 100\<rparr>\<rparr>
             [CallAdd ''a'' [1, 2, 3], Wait 100, Tick [''a''], Wait 200, Tick [''a''], Wait 250] = Some w
          \<and> clock w = 250 \<and> fst (Get ''a'' (store w)) = ([], False))"
proof -
  let ?init = "\<lparr>store = New 100, clock = 0, ticker = \<lparr>period = 100, nextTick = 100\<rparr>\<rparr>"
  let ?wa = "\<lparr>store = Add 0 ''a'' [1, 2, 3] (New 100), clock = 10,
              ticker = \<lparr>period = 100, nextTick = 100\<rparr>\<rparr>"
  let ?wb = "\<lparr>store = New 100, clock = 250, ticker = \<lparr>period = 100, nextTick = 300\<rparr>\<rparr>"
  have new: "NewAt 0 100 = Some ?init"
    by (simp add: NewAt_def NewTicker_def New_def)
  have d: "(100 :: int) < maxDuration"
    by (simp add: maxDuration_def)
  have r0: "run ?init [] = Some ?init"
    by simp
  have ra: "run ?init (CallAdd ''a'' [1, 2, 3] # [Wait 10]) = Some ?wa"
    by (simp add: Add_def New_def)
  have rb: "run ?init (CallAdd ''a'' [1, 2, 3] # [Wait 100, Tick [''a''], Wait 200, Tick [''a''], Wait 250])
              = Some ?wb"
    by (simp add: Add_def New_def reapLoop_sweep_def since_def maxDuration_def minDuration_def)
  have na: "\<forall>e\<in>set [Wait 10]. \<not> addsKey ''a'' e"
    by simp
  have nb: "\<forall>e\<in>set [Wait 100, Tick [''a''], Wait 200, Tick [''a''], Wait 250]. \<not> addsKey ''a'' e"
    by simp
  from bounded_staleness [OF new d r0 ra na]
  have a: "fst (Get ''a'' (store ?wa)) = ([1, 2, 3], True)"
    by simp
  from bounded_staleness [OF new d r0 rb nb]
  have b: "fst (Get ''a'' (store ?wb)) = ([], False)"
    by simp
  from new d ra rb a b show ?thesis
    by simp
qed

text \<open>
  C7 (cache first). \<open>fetchWithCache\<close> asks \<open>Get\<close> first. On a hit it returns the cached
  payload, leaves the client as it was and makes no request. On a miss it makes one
  request; when \<open>http.Get\<close> fails, when the status is not 200, or when the body cannot be
  read, it returns an error and leaves the client, and so the cache, as it was; on
  status 200 with a body it returns the body and stores it under the URL with \<open>Add\<close>.
  The client changes in that last case only.
\<close>

theorem fetchWithCache_cache_first:
  "(fst (Get url (cache c)) = (dat, True)
      \<longrightarrow> fetchWithCache net now c url = (Inr dat, c, [Println ''(using cached data)'']))
   \<and> (snd (fst (Get url (cache c))) = False \<and> net url = None
      \<longrightarrow> fetchWithCache net now c url = (Inl FetchFailed, c, [HttpGet url]))
   \<and> (snd (fst (Get url (cache c))) = False \<and> net url = Some (Response st bd) \<and> st \<noteq> 200
      \<longrightarrow> fetchWithCache net now c url = (Inl (BadStatus st), c, [HttpGet url]))
   \<and> (snd (fst (Get url (cache c))) = False \<and> net url = Some (Response 200 None)
      \<longrightarrow> fetchWithCache net now c url = (Inl ReadFailed, c, [HttpGet url]))
   \<and> (snd (fst (Get url (cache c))) = False \<and> net url = Some (Response 200 (Some body))
      \<longrightarrow> fetchWithCache net now c url
            = (Inr body, c\<lparr>cache := Add now url body (cache c)\<rparr>, [HttpGet url]))
   \<and> (fst (snd (fetchWithCache net now c url)) \<noteq> c
      \<longrightarrow> snd (fst (Get url (cache c))) = False
          \<and> (\<exists>b. net url = Some (Response 200 (Some b))
                 \<and> fetchWithCache net now c url
                     = (Inr b, c\<lparr>cache := Add now url b (cache c)\<rparr>, [HttpGet url])))"
proof -
  have hit: "fetchWithCache net now c url = (Inr dat, c, [Println ''(using cached data)''])"
    if "fst (Get url (cache c)) = (dat, True)" for dat
    using that by (auto simp: fetchWithCache_def Get_def split: option.splits)
  have miss: "fetchWithCache net now c url =
      (case net url of
         None \<Rightarrow> (Inl FetchFailed, c, [HttpGet url])
       | Some r \<Rightarrow>
           if StatusCode r \<noteq> 200 then (Inl (BadStatus (StatusCode r)), c, [HttpGet url])
           else (case Body r of
                   None \<Rightarrow> (Inl ReadFailed, c, [HttpGet url])
                 | Some b \<Rightarrow> (Inr b, c\<lparr>cache := Add now url b (cache c)\<rparr>, [HttpGet url])))"
    if "snd (fst (Get url (cache c))) = False"
    using that by (auto simp: fetchWithCache_def Get_def StatusOK_def split: option.splits)
  have neterr: "snd (fst (Get url (cache c))) = False \<and> net url = None
      \<longrightarrow> fetchWithCache net now c url = (Inl FetchFailed, c, [HttpGet url])"
    by (simp add: miss)
  have status: "snd (fst (Get url (cache c))) = False \<and> net url = Some (Response st bd) \<and> st \<noteq> 200
      \<longrightarrow> fetchWithCache net now c url = (Inl (BadStatus st), c, [HttpGet url])"
    by (simp add: miss)
  have rd: "snd (fst (Get url (cache c))) = False \<and> net url = Some (Response 200 None)
      \<longrightarrow> fetchWithCache net now c url = (Inl ReadFailed, c, [HttpGet url])"
    by (simp add: miss)
  have ok: "snd (fst (Get url (cache c))) = False \<and> net url = Some (Response 200 (Some body))
      \<longrightarrow> fetchWithCache net now c url
            = (Inr body, c\<lparr>cache := Add now url body (cache c)\<rparr>, [HttpGet url])"
    by (simp add: miss)
  have only: "fst (snd (fetchWithCache net now c url)) \<noteq> c
      \<longrightarrow> snd (fst (Get url (cache c))) = False
          \<and> (\<exists>b. net url = Some (Response 200 (Some b))
                 \<and> fetchWithCache net now c url
                     = (Inr b, c\<lparr>cache := Add now url b (cache c)\<rparr>, [HttpGet url]))"
  proof
    assume ch: "fst (snd (fetchWithCache net now c url)) \<noteq> c"
    have m: "snd (fst (Get url (cache c))) = False"
    proof (rule ccontr)
      assume "snd (fst (Get url (cache c))) \<noteq> False"
      then have "fst (Get url (cache c)) = (fst (fst (Get url (cache c))), True)"
        by (simp add: prod_eq_iff)
      from hit [OF this] ch show False by simp
    qed
    from ch miss [OF m] obtain r where r: "net url = Some r"
      by (cases "net url") simp_all
    obtain st bd where rr: "r = Response st bd" by (cases r)
    from ch miss [OF m] r rr have st: "st = 200"
      by (simp split: if_splits)
    from ch miss [OF m] r rr st obtain b where b: "bd = Some b"
      by (cases bd) simp_all
    from miss [OF m] r rr st b
    have "fetchWithCache net now c url
            = (Inr b, c\<lparr>cache := Add now url b (cache c)\<rparr>, [HttpGet url])"
      by simp
    with m r rr st b show "snd (fst (Get url (cache c))) = False
          \<and> (\<exists>b. net url = Some (Response 200 (Some b))
                 \<and> fetchWithCache net now c url
                     = (Inr b, c\<lparr>cache := Add now url b (cache c)\<rparr>, [HttpGet url]))"
      by blast
  qed
  have hit': "fst (Get url (cache c)) = (dat, True)
      \<longrightarrow> fetchWithCache net now c url = (Inr dat, c, [Println ''(using cached data)''])"
    using hit by blast
  from hit' neterr status rd ok only show ?thesis
    by (intro conjI)
qed


theorem fetchWithCache_cache_first_witness:
  "fst (Get ''u'' (cache \<lparr>cache = Add 5 ''u'' [1, 2] (New 100), baseURL = ''b''\<rparr>)) = ([1, 2], True)
   \<and> fetchWithCache (\<lambda>u. None) 9 \<lparr>cache = Add 5 ''u'' [1, 2] (New 100), baseURL = ''b''\<rparr> ''u''
       = (Inr [1, 2], \<lparr>cache = Add 5 ''u'' [1, 2] (New 100), baseURL = ''b''\<rparr>,
          [Println ''(using cached data)''])
   \<and> snd (fst (Get ''u'' (cache \<lparr>cache = New 100, baseURL = ''b''\<rparr>))) = False
   \<and> (404 :: int) \<noteq> 200
   \<and> fetchWithCache (\<lambda>u. Some (Response 404 None)) 9 \<lparr>cache = New 100, baseURL = ''b''\<rparr> ''u''
       = (Inl (BadStatus 404), \<lparr>cache = New 100, baseURL = ''b''\<rparr>, [HttpGet ''u''])
   \<and> fetchWithCache (\<lambda>u. Some (Response 200 (Some [7]))) 9 \<lparr>cache = New 100, baseURL = ''b''\<rparr> ''u''
       = (Inr [7], \<lparr>cache = Add 9 ''u'' [7] (New 100), baseURL = ''b''\<rparr>, [HttpGet ''u''])"
proof -
  let ?full = "\<lparr>cache = Add 5 ''u'' [1, 2] (New 100), baseURL = ''b''\<rparr>"
  let ?empty = "\<lparr>cache = New 100, baseURL = ''b''\<rparr>"
  have g: "fst (Get ''u'' (cache ?full)) = ([1, 2], True)"
    by (simp add: Get_def Add_def)
  have m: "snd (fst (Get ''u'' (cache ?empty))) = False"
    by (simp add: Get_def New_def)
  have s: "(404 :: int) \<noteq> 200"
    by simp
  from fetchWithCache_cache_first [of "''u''" ?full "[1, 2]" "\<lambda>u. None" 9] g
  have a: "fetchWithCache (\<lambda>u. None) 9 ?full ''u'' = (Inr [1, 2], ?full, [Println ''(using cached data)''])"
    by blast
  from fetchWithCache_cache_first
    [of "''u''" ?empty _ "\<lambda>u. Some (Response 404 None)" 9 404 None] m s
  have b: "fetchWithCache (\<lambda>u. Some (Response 404 None)) 9 ?empty ''u''
             = (Inl (BadStatus 404), ?empty, [HttpGet ''u''])"
    by blast
  from fetchWithCache_cache_first
    [of "''u''" ?empty _ "\<lambda>u. Some (Response 200 (Some [7]))" 9 _ _ "[7]"] m
  have c: "fetchWithCache (\<lambda>u. Some (Response 200 (Some [7]))) 9 ?empty ''u''
             = (Inr [7], ?empty\<lparr>cache := Add 9 ''u'' [7] (cache ?empty)\<rparr>, [HttpGet ''u''])"
    by blast
  have "?empty\<lparr>cache := Add 9 ''u'' [7] (cache ?empty)\<rparr>
          = \<lparr>cache = Add 9 ''u'' [7] (New 100), baseURL = ''b''\<rparr>"
    by simp
  with c have c': "fetchWithCache (\<lambda>u. Some (Response 200 (Some [7]))) 9 ?empty ''u''
             = (Inr [7], \<lparr>cache = Add 9 ''u'' [7] (New 100), baseURL = ''b''\<rparr>, [HttpGet ''u''])"
    by (simp only:)
  from g a m s b c' show ?thesis
    by (intro conjI)
qed

text \<open>
  C9 (frame). \<open>Get\<close> returns the cache it was given, map and \<open>ttl\<close> unchanged. \<open>Add\<close> keeps
  \<open>ttl\<close> and the entry of every key other than the one it adds.
\<close>

theorem Get_Add_frame:
  "snd (Get k c) = c
   \<and> ttl (Add now k v c) = ttl c
   \<and> (k' \<noteq> k \<longrightarrow> entries (Add now k v c) k' = entries c k')"
  by (simp add: Add_def Get_def split: option.splits)

theorem Get_Add_frame_witness:
  "''b'' \<noteq> ''a'' \<and>
   entries (Add 7 ''a'' [1, 2] (Add 3 ''b'' [9] (New 100))) ''b'' = Some \<lparr>createdAt = 3, data = [9]\<rparr>
   \<and> snd (Get ''a'' (Add 3 ''b'' [9] (New 100))) = Add 3 ''b'' [9] (New 100)
   \<and> ttl (Add 7 ''a'' [1, 2] (Add 3 ''b'' [9] (New 100))) = 100"
  using Get_Add_frame [of "''a''" "Add 3 ''b'' [9] (New 100)" 7 "[1, 2]" "''b''"]
  by (simp add: Add_def New_def)

text \<open>
  C10 (catch threshold). When \<open>GetPokemon\<close> returned the Pokemon \<open>p\<close>, \<open>commandCatch\<close>
  reports the catch if and only if the roll is at least the smaller of \<open>BaseExperience p\<close>
  and 400; with a pokedex that is not nil it then returns no error and has stored \<open>p\<close>
  under its name in exactly that case, and left the pokedex as it was otherwise. So with
  a base experience of 400 or more no roll from 0 up to 399 catches it: the command
  returns no error, reports no catch, and the pokedex stays as it was.
\<close>

theorem commandCatch_threshold:
  assumes got: "GetPokemon net decode now (client cfg) name = (Inr p, c', effs)"
  shows "(Println (name @ '' was caught!'')
             \<in> set (snd (snd (commandCatch net decode now roll cfg (name # rest))))
          ) = (min (BaseExperience p) 400 \<le> roll)
       \<and> (pokedex cfg = Some dex
            \<longrightarrow> fst (commandCatch net decode now roll cfg (name # rest)) = Returned None
              \<and> fst (snd (commandCatch net decode now roll cfg (name # rest)))
                  = (if min (BaseExperience p) 400 \<le> roll
                     then cfg\<lparr>client := c', pokedex := Some (dex(name \<mapsto> p))\<rparr>
                     else cfg\<lparr>client := c'\<rparr>))
       \<and> (400 \<le> BaseExperience p \<and> 0 \<le> roll \<and> roll < 400
            \<longrightarrow> fst (commandCatch net decode now roll cfg (name # rest)) = Returned None
              \<and> pokedex (fst (snd (commandCatch net decode now roll cfg (name # rest)))) = pokedex cfg
              \<and> Println (name @ '' was caught!'')
                  \<notin> set (snd (snd (commandCatch net decode now roll cfg (name # rest)))))"
proof -
  let ?throw = "[Println (''Throwing a Pokeball at '' @ name @ ''...'')]"
  let ?caught = "[Println (name @ '' was caught!''),
                  Println ''You may now inspect it with the inspect command.'']"
  have cc: "commandCatch net decode now roll cfg (name # rest) =
      (if min (BaseExperience p) 400 \<le> roll
       then (case pokedex cfg of
               None \<Rightarrow> (Panicked, cfg\<lparr>client := c'\<rparr>, ?throw @ effs @ ?caught)
             | Some d \<Rightarrow>
                 (Returned None, cfg\<lparr>client := c', pokedex := Some (d(name \<mapsto> p))\<rparr>,
                  ?throw @ effs @ ?caught))
       else (Returned None, cfg\<lparr>client := c'\<rparr>,
             ?throw @ effs @ [Println (name @ '' escaped!'')]))"
    by (simp add: commandCatch_def got maxBaseExp_def split: option.splits)
  from GetPokemon_effects [OF got]
  have quiet: "Println (name @ '' was caught!'') \<notin> set effs"
    by (auto simp: caught_line_not_cached)
  have line: "(Println (name @ '' was caught!'')
             \<in> set (snd (snd (commandCatch net decode now roll cfg (name # rest))))
          ) = (min (BaseExperience p) 400 \<le> roll)"
    using quiet caught_line_not_throw [of name] by (simp add: cc split: option.splits)
  have stored: "pokedex cfg = Some dex
            \<longrightarrow> fst (commandCatch net decode now roll cfg (name # rest)) = Returned None
              \<and> fst (snd (commandCatch net decode now roll cfg (name # rest)))
                  = (if min (BaseExperience p) 400 \<le> roll
                     then cfg\<lparr>client := c', pokedex := Some (dex(name \<mapsto> p))\<rparr>
                     else cfg\<lparr>client := c'\<rparr>)"
    by (simp add: cc)
  have never: "400 \<le> BaseExperience p \<and> 0 \<le> roll \<and> roll < 400
            \<longrightarrow> fst (commandCatch net decode now roll cfg (name # rest)) = Returned None
              \<and> pokedex (fst (snd (commandCatch net decode now roll cfg (name # rest)))) = pokedex cfg
              \<and> Println (name @ '' was caught!'')
                  \<notin> set (snd (snd (commandCatch net decode now roll cfg (name # rest))))"
  proof
    assume "400 \<le> BaseExperience p \<and> 0 \<le> roll \<and> roll < 400"
    then have no: "\<not> min (BaseExperience p) 400 \<le> roll"
      by simp
    with cc have "commandCatch net decode now roll cfg (name # rest)
        = (Returned None, cfg\<lparr>client := c'\<rparr>, ?throw @ effs @ [Println (name @ '' escaped!'')])"
      by simp
    with line no
    show "fst (commandCatch net decode now roll cfg (name # rest)) = Returned None
              \<and> pokedex (fst (snd (commandCatch net decode now roll cfg (name # rest)))) = pokedex cfg
              \<and> Println (name @ '' was caught!'')
                  \<notin> set (snd (snd (commandCatch net decode now roll cfg (name # rest))))"
      by simp
  qed
  from line stored never show ?thesis
    by (intro conjI)
qed

theorem commandCatch_threshold_witness:
  "GetPokemon (\<lambda>u. Some (Response 200 (Some [1])))
      (\<lambda>b. Some \<lparr>ID = 242, Name = ''blissey'', BaseExperience = 608, Height = 15, Weight = 468,
                   IsDefault = True, Order = 1\<rparr>)
      9 (client \<lparr>client = \<lparr>cache = New 100, baseURL = ''api''\<rparr>, nextURL = None, prevURL = None,
                  pokedex = Some Map.empty\<rparr>) ''blissey''
     = (Inr \<lparr>ID = 242, Name = ''blissey'', BaseExperience = 608, Height = 15, Weight = 468,
             IsDefault = True, Order = 1\<rparr>,
        \<lparr>cache = Add 9 ''api/pokemon/blissey/'' [1] (New 100), baseURL = ''api''\<rparr>,
        [HttpGet ''api/pokemon/blissey/''])
   \<and> (400 :: int) \<le> 608 \<and> (0 :: int) \<le> 399 \<and> (399 :: int) < 400
   \<and> pokedex (fst (snd (commandCatch (\<lambda>u. Some (Response 200 (Some [1])))
      (\<lambda>b. Some \<lparr>ID = 242, Name = ''blissey'', BaseExperience = 608, Height = 15, Weight = 468,
                   IsDefault = True, Order = 1\<rparr>)
      9 399 \<lparr>client = \<lparr>cache = New 100, baseURL = ''api''\<rparr>, nextURL = None, prevURL = None,
               pokedex = Some Map.empty\<rparr> [''blissey'']))) = Some Map.empty
   \<and> GetPokemon (\<lambda>u. Some (Response 200 (Some [2])))
      (\<lambda>b. Some \<lparr>ID = 25, Name = ''pikachu'', BaseExperience = 112, Height = 4, Weight = 60,
                   IsDefault = True, Order = 1\<rparr>)
      9 (client \<lparr>client = \<lparr>cache = New 100, baseURL = ''api''\<rparr>, nextURL = None, prevURL = None,
                  pokedex = Some Map.empty\<rparr>) ''pikachu''
     = (Inr \<lparr>ID = 25, Name = ''pikachu'', BaseExperience = 112, Height = 4, Weight = 60,
             IsDefault = True, Order = 1\<rparr>,
        \<lparr>cache = Add 9 ''api/pokemon/pikachu/'' [2] (New 100), baseURL = ''api''\<rparr>,
        [HttpGet ''api/pokemon/pikachu/''])
   \<and> min 112 400 \<le> (112 :: int) \<and> (111 :: int) < min 112 400
   \<and> pokedex (fst (snd (commandCatch (\<lambda>u. Some (Response 200 (Some [2])))
      (\<lambda>b. Some \<lparr>ID = 25, Name = ''pikachu'', BaseExperience = 112, Height = 4, Weight = 60,
                   IsDefault = True, Order = 1\<rparr>)
      9 112 \<lparr>client = \<lparr>cache = New 100, baseURL = ''api''\<rparr>, nextURL = None, prevURL = None,
               pokedex = Some Map.empty\<rparr> [''pikachu''])))
      = Some [''pikachu'' \<mapsto> \<lparr>ID = 25, Name = ''pikachu'', BaseExperience = 112, Height = 4,
                                  Weight = 60, IsDefault = True, Order = 1\<rparr>]
   \<and> pokedex (fst (snd (commandCatch (\<lambda>u. Some (Response 200 (Some [2])))
      (\<lambda>b. Some \<lparr>ID = 25, Name = ''pikachu'', BaseExperience = 112, Height = 4, Weight = 60,
                   IsDefault = True, Order = 1\<rparr>)
      9 111 \<lparr>client = \<lparr>cache = New 100, baseURL = ''api''\<rparr>, nextURL = None, prevURL = None,
               pokedex = Some Map.empty\<rparr> [''pikachu'']))) = Some Map.empty"
proof -
  let ?p = "\<lparr>ID = 242, Name = ''blissey'', BaseExperience = 608, Height = 15, Weight = 468,
             IsDefault = True, Order = 1\<rparr>"
  let ?q = "\<lparr>ID = 25, Name = ''pikachu'', BaseExperience = 112, Height = 4, Weight = 60,
             IsDefault = True, Order = 1\<rparr>"
  let ?netp = "\<lambda>u :: string. Some (Response 200 (Some [1]))"
  let ?netq = "\<lambda>u :: string. Some (Response 200 (Some [2]))"
  let ?decp = "\<lambda>b :: bytes. Some ?p"
  let ?decq = "\<lambda>b :: bytes. Some ?q"
  let ?cfg = "\<lparr>client = \<lparr>cache = New 100, baseURL = ''api''\<rparr>, nextURL = None, prevURL = None,
               pokedex = Some Map.empty\<rparr>"
  have gotp: "GetPokemon ?netp ?decp 9 (client ?cfg) ''blissey''
               = (Inr ?p, \<lparr>cache = Add 9 ''api/pokemon/blissey/'' [1] (New 100), baseURL = ''api''\<rparr>,
                  [HttpGet ''api/pokemon/blissey/''])"
    by (simp add: GetPokemon_def fetchWithCache_def Get_def New_def StatusOK_def Let_def)
  have gotq: "GetPokemon ?netq ?decq 9 (client ?cfg) ''pikachu''
               = (Inr ?q, \<lparr>cache = Add 9 ''api/pokemon/pikachu/'' [2] (New 100), baseURL = ''api''\<rparr>,
                  [HttpGet ''api/pokemon/pikachu/''])"
    by (simp add: GetPokemon_def fetchWithCache_def Get_def New_def StatusOK_def Let_def)
  have n: "(400 :: int) \<le> 608" "(0 :: int) \<le> 399" "(399 :: int) < 400"
    and n': "min 112 400 \<le> (112 :: int)" "(111 :: int) < min 112 400"
    by simp_all
  from commandCatch_threshold [OF gotp, of 399 "[]" Map.empty]
  have a: "pokedex (fst (snd (commandCatch ?netp ?decp 9 399 ?cfg [''blissey'']))) = Some Map.empty"
    by simp
  from commandCatch_threshold [OF gotq, of 112 "[]" Map.empty]
  have b: "pokedex (fst (snd (commandCatch ?netq ?decq 9 112 ?cfg [''pikachu''])))
             = Some [''pikachu'' \<mapsto> ?q]"
    by simp
  from commandCatch_threshold [OF gotq, of 111 "[]" Map.empty]
  have c: "pokedex (fst (snd (commandCatch ?netq ?decq 9 111 ?cfg [''pikachu'']))) = Some Map.empty"
    by simp
  from gotp n a gotq n' b c show ?thesis
    by (intro conjI)
qed

end
